theory Spec2Isabelle
  imports Main "HOL-Library.Multiset"
begin

section \<open>JavaScript values\<close>

text \<open>
  The records handled by \<^verbatim>\<open>tourCalculations.js\<close> are plain JavaScript objects whose
  properties may be missing or of the wrong type, and the code tests them with
  truthiness, \<^verbatim>\<open>typeof\<close> and \<^verbatim>\<open>||\<close>. A property value is therefore a \<open>jsval\<close>; a missing
  property reads as \<open>JUndefined\<close>. Numbers are modelled as integers (gaps are show counts,
  durations are whole seconds); \<^verbatim>\<open>NaN\<close>, infinities and fractions are not modelled.
\<close>

datatype jsval = JUndefined | JNull | JBool bool | JNum int | JStr string

text \<open>
  Exceptions: the \<^verbatim>\<open>TypeError\<close> of a call on a value that has no such method, and the
  \<^verbatim>\<open>Error\<close> that the API clients throw when a request fails.
\<close>

datatype error = TypeError | FetchError

text \<open>JavaScript \<^verbatim>\<open>ToBoolean\<close>.\<close>

fun truthy :: "jsval \<Rightarrow> bool" where
  "truthy JUndefined = False"
| "truthy JNull = False"
| "truthy (JBool b) = b"
| "truthy (JNum n) = (n \<noteq> 0)"
| "truthy (JStr s) = (s \<noteq> [])"

text \<open>\<^verbatim>\<open>a || b\<close>: the left operand when it is truthy, else the right one.\<close>

definition jsOr :: "jsval \<Rightarrow> jsval \<Rightarrow> jsval" where
  "jsOr a b = (if truthy a then a else b)"

text \<open>
  \<^verbatim>\<open>a > b\<close> and \<^verbatim>\<open>a - b\<close>. The source applies them only to values that have passed a
  \<^verbatim>\<open>typeof v === 'number'\<close> test; on any other operand the model takes the result that
  JavaScript gives for \<^verbatim>\<open>undefined\<close> (\<^verbatim>\<open>NaN\<close>: the comparison is false, and
  \<^verbatim>\<open>Array.prototype.sort\<close> reads a \<^verbatim>\<open>NaN\<close> comparator result as \<open>0\<close>).
\<close>

fun jsGt :: "jsval \<Rightarrow> jsval \<Rightarrow> bool" where
  "jsGt (JNum a) (JNum b) = (a > b)"
| "jsGt _ _ = False"

fun jsMinus :: "jsval \<Rightarrow> jsval \<Rightarrow> int" where
  "jsMinus (JNum a) (JNum b) = a - b"
| "jsMinus _ _ = 0"

text \<open>
  \<^verbatim>\<open>String.prototype.toLowerCase\<close>, on ASCII letters. Calling it on a value that is not a
  string is a \<^verbatim>\<open>TypeError\<close> (the property lookup yields \<^verbatim>\<open>undefined\<close>, which is not callable).
\<close>

definition lowerTable :: "(char \<times> char) list" where
  "lowerTable = zip ''ABCDEFGHIJKLMNOPQRSTUVWXYZ'' ''abcdefghijklmnopqrstuvwxyz''"

definition toLowerChar :: "char \<Rightarrow> char" where
  "toLowerChar c = (case map_of lowerTable c of Some l \<Rightarrow> l | None \<Rightarrow> c)"

fun toLowerCase :: "jsval \<Rightarrow> error + string" where
  "toLowerCase (JStr s) = Inr (map toLowerChar s)"
| "toLowerCase _ = Inl TypeError"

section \<open>Arrays and the insertion-ordered Map\<close>

text \<open>
  \<^verbatim>\<open>Array.prototype.sort(cmp)\<close> is a stable sort (ECMAScript 2019): an element goes before
  another when \<open>cmp\<close> is negative, and elements that compare equal keep their order.
  The model is the stable insertion sort; \<^verbatim>\<open>slice(0, 3)\<close> is \<open>take 3\<close>.
\<close>

fun insertBy :: "('a \<Rightarrow> 'a \<Rightarrow> int) \<Rightarrow> 'a \<Rightarrow> 'a list \<Rightarrow> 'a list" where
  "insertBy cmp x [] = [x]"
| "insertBy cmp x (y # ys) = (if cmp x y \<le> 0 then x # y # ys else y # insertBy cmp x ys)"

definition arraySort :: "('a \<Rightarrow> 'a \<Rightarrow> int) \<Rightarrow> 'a list \<Rightarrow> 'a list" where
  "arraySort cmp xs = foldr (insertBy cmp) xs []"

text \<open>
  A JavaScript \<^verbatim>\<open>Map\<close> iterates in insertion order of its keys, and \<^verbatim>\<open>set\<close> on a key that
  is already present replaces the value in place: an association list, updated in place
  or extended at the end.
\<close>

type_synonym 'v jsmap = "(string \<times> 'v) list"

definition mapGet :: "'v jsmap \<Rightarrow> string \<Rightarrow> 'v option" where
  "mapGet m k = map_of m k"

fun mapSet :: "'v jsmap \<Rightarrow> string \<Rightarrow> 'v \<Rightarrow> 'v jsmap" where
  "mapSet [] k v = [(k, v)]"
| "mapSet (p # ps) k v = (if fst p = k then (k, v) # ps else p # mapSet ps k v)"

definition mapValues :: "'v jsmap \<Rightarrow> 'v list" where
  "mapValues m = map snd m"

section \<open>The records of the calculation engine\<close>

text \<open>
  A gap observation (an element of \<^verbatim>\<open>show.songGaps\<close>). The entries that the reducer stores
  in its \<^verbatim>\<open>Map\<close> and returns are objects with the same ten properties, so they share the type.
\<close>

record gapInfo =
  songName :: jsval
  gap :: jsval
  lastPlayed :: jsval
  tourDate :: jsval
  tourVenue :: jsval
  timesPlayed :: jsval
  historicalVenue :: jsval
  historicalCity :: jsval
  historicalState :: jsval
  historicalLastPlayed :: jsval

text \<open>
  A show. \<open>songGaps\<close> is \<open>None\<close> when the property is missing, falsy or not an array
  (the guard at the head of the outer \<^verbatim>\<open>forEach\<close> body). The engine reads no other
  property of a show.
\<close>

record tourShow =
  showDate :: jsval
  venue :: jsval
  songGaps :: "gapInfo list option"

text \<open>
  A track duration record; its properties \<^verbatim>\<open>songName\<close>, \<^verbatim>\<open>showDate\<close> and \<^verbatim>\<open>venue\<close> carry
  the suffix \<open>T\<close> here, the names being taken by the records above. Of a venue run the
  formatter reads \<^verbatim>\<open>nightNumber\<close>, \<^verbatim>\<open>totalNights\<close> and \<^verbatim>\<open>displayText\<close>; the Phish.in
  client writes \<^verbatim>\<open>showNumber\<close>, \<^verbatim>\<open>totalShows\<close> and \<^verbatim>\<open>displayText\<close>.
\<close>

record venueRunInfo =
  nightNumber :: jsval
  totalNights :: jsval
  showNumber :: jsval
  totalShows :: jsval
  displayText :: jsval

record track =
  songNameT :: jsval
  durationSeconds :: jsval
  showDateT :: jsval
  venueT :: jsval
  venueRun :: "venueRunInfo option"

section \<open>calculateTourProgressiveRarestSongs\<close>

text \<open>
  The validation of one observation:
  \<^verbatim>\<open>!gapInfo.songName || typeof gapInfo.gap !== 'number' || gapInfo.gap < 0\<close>.
\<close>

definition invalidGap :: "gapInfo \<Rightarrow> bool" where
  "invalidGap gi =
     (\<not> truthy (songName gi) \<or> (case gap gi of JNum n \<Rightarrow> n < 0 | _ \<Rightarrow> True))"

text \<open>The object literal passed to \<^verbatim>\<open>tourSongGaps.set\<close>.\<close>

definition storedEntry :: "tourShow \<Rightarrow> gapInfo \<Rightarrow> gapInfo" where
  "storedEntry sh gi =
     \<lparr> songName = songName gi,
       gap = gap gi,
       lastPlayed = jsOr (lastPlayed gi) JNull,
       tourDate = showDate sh,
       tourVenue = jsOr (venue sh) (JStr ''Unknown Venue''),
       timesPlayed = jsOr (timesPlayed gi) (JNum 100),
       historicalVenue = jsOr (historicalVenue gi) JNull,
       historicalCity = jsOr (historicalCity gi) JNull,
       historicalState = jsOr (historicalState gi) JNull,
       historicalLastPlayed = jsOr (historicalLastPlayed gi) (lastPlayed gi) \<rparr>"

text \<open>The body of the inner \<^verbatim>\<open>forEach\<close>, for one observation of show \<open>sh\<close>.\<close>

definition visitGap :: "tourShow \<Rightarrow> gapInfo jsmap \<Rightarrow> gapInfo \<Rightarrow> error + gapInfo jsmap" where
  "visitGap sh tourSongGaps gi =
     (if invalidGap gi then Inr tourSongGaps
      else case toLowerCase (songName gi) of
        Inl e \<Rightarrow> Inl e
      | Inr songKey \<Rightarrow>
          (case mapGet tourSongGaps songKey of
             None \<Rightarrow> Inr (mapSet tourSongGaps songKey (storedEntry sh gi))
           | Some existingGap \<Rightarrow>
               if jsGt (gap gi) (gap existingGap)
               then Inr (mapSet tourSongGaps songKey (storedEntry sh gi))
               else Inr tourSongGaps))"

fun forEachGap :: "tourShow \<Rightarrow> gapInfo jsmap \<Rightarrow> gapInfo list \<Rightarrow> error + gapInfo jsmap" where
  "forEachGap sh m [] = Inr m"
| "forEachGap sh m (gi # gis) =
     (case visitGap sh m gi of Inl e \<Rightarrow> Inl e | Inr m' \<Rightarrow> forEachGap sh m' gis)"

text \<open>The body of the outer \<^verbatim>\<open>forEach\<close>, for one show.\<close>

definition visitShow :: "gapInfo jsmap \<Rightarrow> tourShow \<Rightarrow> error + gapInfo jsmap" where
  "visitShow m sh = (case songGaps sh of None \<Rightarrow> Inr m | Some gis \<Rightarrow> forEachGap sh m gis)"

fun forEachShow :: "gapInfo jsmap \<Rightarrow> tourShow list \<Rightarrow> error + gapInfo jsmap" where
  "forEachShow m [] = Inr m"
| "forEachShow m (sh # shs) =
     (case visitShow m sh of Inl e \<Rightarrow> Inl e | Inr m' \<Rightarrow> forEachShow m' shs)"

text \<open>The comparator \<^verbatim>\<open>(a, b) => b.gap - a.gap\<close>.\<close>

definition byGapDesc :: "gapInfo \<Rightarrow> gapInfo \<Rightarrow> int" where
  "byGapDesc a b = jsMinus (gap b) (gap a)"

text \<open>
  The function. The argument is the array \<^verbatim>\<open>tourShows\<close> (the second parameter,
  \<^verbatim>\<open>tourName\<close>, is not used); the logging, and the \<^verbatim>\<open>highGapSongs\<close> list built for it
  from a filtered copy, do not reach the result.
\<close>

definition calculateTourProgressiveRarestSongs :: "tourShow list \<Rightarrow> error + gapInfo list" where
  "calculateTourProgressiveRarestSongs tourShows =
     (if tourShows = [] then Inr []
      else case forEachShow [] tourShows of
        Inl e \<Rightarrow> Inl e
      | Inr tourSongGaps \<Rightarrow>
          (let allSongs = mapValues tourSongGaps
           in Inr (take 3 (arraySort byGapDesc allSongs))))"

section \<open>calculateLongestSongs\<close>

text \<open>
  The filter predicate \<^verbatim>\<open>track && typeof track.durationSeconds === 'number' &&
  track.durationSeconds > 0 && track.songName\<close>; a track record is an object, hence truthy.
\<close>

definition validTrack :: "track \<Rightarrow> bool" where
  "validTrack t =
     ((case durationSeconds t of JNum n \<Rightarrow> n > 0 | _ \<Rightarrow> False) \<and> truthy (songNameT t))"

text \<open>The comparator \<^verbatim>\<open>(a, b) => b.durationSeconds - a.durationSeconds\<close>.\<close>

definition byDurationDesc :: "track \<Rightarrow> track \<Rightarrow> int" where
  "byDurationDesc a b = jsMinus (durationSeconds b) (durationSeconds a)"

definition calculateLongestSongs :: "track list \<Rightarrow> track list" where
  "calculateLongestSongs trackDurations =
     (if trackDurations = [] then []
      else let validTracks = arraySort byDurationDesc (filter validTrack trackDurations)
           in take 3 validTracks)"

section \<open>The engine on an explicit array store\<close>

text \<open>
  \<^verbatim>\<open>Array.prototype.sort\<close> sorts the array it is called on, in place, whereas \<^verbatim>\<open>filter\<close>,
  \<^verbatim>\<open>slice\<close> and \<^verbatim>\<open>Array.from\<close> allocate a new array. To tell which arrays a call writes,
  arrays live in a store: a reference is a number, the references below \<open>nextRef\<close> are
  the allocated ones.
\<close>

record 'a store =
  arrays :: "nat \<Rightarrow> 'a list"
  nextRef :: nat

definition newArray :: "'a list \<Rightarrow> 'a store \<Rightarrow> nat \<times> 'a store" where
  "newArray xs s =
     (nextRef s, s\<lparr>arrays := (arrays s)(nextRef s := xs), nextRef := Suc (nextRef s)\<rparr>)"

definition sortInPlace :: "('a \<Rightarrow> 'a \<Rightarrow> int) \<Rightarrow> nat \<Rightarrow> 'a store \<Rightarrow> 'a store" where
  "sortInPlace cmp r s = s\<lparr>arrays := (arrays s)(r := arraySort cmp (arrays s r))\<rparr>"

text \<open>
  \<^verbatim>\<open>calculateLongestSongs\<close>, statement by statement: the empty-array literal of the early
  return, \<^verbatim>\<open>trackDurations.filter(...)\<close>, \<^verbatim>\<open>.sort(...)\<close> on the array that \<^verbatim>\<open>filter\<close> returned,
  and \<^verbatim>\<open>validTracks.slice(0, 3)\<close>.
\<close>

definition calculateLongestSongsIn :: "nat \<Rightarrow> track store \<Rightarrow> nat \<times> track store" where
  "calculateLongestSongsIn trackDurations s =
     (if arrays s trackDurations = [] then newArray [] s
      else let (validTracks, s1) = newArray (filter validTrack (arrays s trackDurations)) s;
               s2 = sortInPlace byDurationDesc validTracks s1
           in newArray (take 3 (arrays s2 validTracks)) s2)"

text \<open>
  A show object on the heap refers to its \<^verbatim>\<open>songGaps\<close> array; the arrays of shows and the
  arrays of gap records are two stores. \<open>readShows\<close> is the view of the array \<^verbatim>\<open>tourShows\<close>
  that the two \<^verbatim>\<open>forEach\<close> loops traverse (they only read).
\<close>

record showObject =
  showDateOf :: jsval
  venueOf :: jsval
  songGapsRef :: "nat option"

record heap =
  showArrays :: "showObject store"
  gapArrays :: "gapInfo store"

definition readShow :: "heap \<Rightarrow> showObject \<Rightarrow> tourShow" where
  "readShow h ob =
     \<lparr> showDate = showDateOf ob, venue = venueOf ob,
       songGaps = map_option (arrays (gapArrays h)) (songGapsRef ob) \<rparr>"

definition readShows :: "heap \<Rightarrow> nat \<Rightarrow> tourShow list" where
  "readShows h r = map (readShow h) (arrays (showArrays h) r)"

text \<open>
  \<^verbatim>\<open>calculateTourProgressiveRarestSongs\<close>, statement by statement: the early return, the
  loops over the local \<^verbatim>\<open>Map\<close>, \<^verbatim>\<open>Array.from(tourSongGaps.values())\<close>, the
  \<^verbatim>\<open>highGapSongs\<close> list (\<^verbatim>\<open>filter\<close>, then \<^verbatim>\<open>sort\<close> on the filtered copy, then \<^verbatim>\<open>slice(0, 10)\<close>
  when it is not empty), \<^verbatim>\<open>allSongs.sort(...)\<close> in place and \<^verbatim>\<open>.slice(0, 3)\<close>. An exception
  leaves the heap as it was.
\<close>

definition calculateTourProgressiveRarestSongsIn :: "nat \<Rightarrow> heap \<Rightarrow> (error + nat) \<times> heap" where
  "calculateTourProgressiveRarestSongsIn tourShows h =
     (if arrays (showArrays h) tourShows = [] then
        (let (r, g) = newArray [] (gapArrays h) in (Inr r, h\<lparr>gapArrays := g\<rparr>))
      else case forEachShow [] (readShows h tourShows) of
        Inl e \<Rightarrow> (Inl e, h)
      | Inr tourSongGaps \<Rightarrow>
          (let (allSongs, g1) = newArray (mapValues tourSongGaps) (gapArrays h);
               (highGapSongs, g2) =
                  newArray (filter (\<lambda>song. jsGt (gap song) (JNum 200)) (arrays g1 allSongs)) g1;
               g3 = sortInPlace byGapDesc highGapSongs g2;
               g4 = (if arrays g3 highGapSongs \<noteq> []
                     then snd (newArray (take 10 (arrays g3 highGapSongs)) g3) else g3);
               g5 = sortInPlace byGapDesc allSongs g4;
               (topRarestSongs, g6) = newArray (take 3 (arrays g5 allSongs)) g5
           in (Inr topRarestSongs, h\<lparr>gapArrays := g6\<rparr>)))"


section \<open>The API clients and the aggregator\<close>






subsection \<open>The Phish.in client: fetchTourTrackDurations\<close>






subsection \<open>The aggregator\<close>










record tourData =
  allTourTrackDurations :: "track list"
  tourShows :: "tourShow list"




section \<open>Notions used to state the properties\<close>

text \<open>
  The observations of a tour in the order in which the nested loops visit them, each with
  the show that carries it; and the nested loops as one loop over that list.
\<close>

definition observations :: "tourShow list \<Rightarrow> (tourShow \<times> gapInfo) list" where
  "observations shs =
     concat (map (\<lambda>sh. case songGaps sh of None \<Rightarrow> [] | Some gis \<Rightarrow> map (Pair sh) gis) shs)"

fun forEachObservation :: "gapInfo jsmap \<Rightarrow> (tourShow \<times> gapInfo) list \<Rightarrow> error + gapInfo jsmap" where
  "forEachObservation m [] = Inr m"
| "forEachObservation m (ob # obs) =
     (case visitGap (fst ob) m (snd ob) of Inl e \<Rightarrow> Inl e | Inr m' \<Rightarrow> forEachObservation m' obs)"

text \<open>An observation counts for the song with key \<open>k\<close>: it is valid and its name lower-cases to \<open>k\<close>.\<close>

definition observes :: "string \<Rightarrow> gapInfo \<Rightarrow> bool" where
  "observes k gi = (\<not> invalidGap gi \<and> toLowerCase (songName gi) = Inr k)"

text \<open>The number held by the \<^verbatim>\<open>gap\<close> resp. \<^verbatim>\<open>durationSeconds\<close> property.\<close>

definition gapValue :: "gapInfo \<Rightarrow> int" where
  "gapValue gi = (case gap gi of JNum n \<Rightarrow> n | _ \<Rightarrow> 0)"

definition durationValue :: "track \<Rightarrow> int" where
  "durationValue t = (case durationSeconds t of JNum n \<Rightarrow> n | _ \<Rightarrow> 0)"

text \<open>
  The specification of the reducer, in its own words: among the observations of song \<open>k\<close>,
  the first one, in input order, whose gap is the maximum.
\<close>

definition firstMaxObservation ::
  "string \<Rightarrow> (tourShow \<times> gapInfo) list \<Rightarrow> (tourShow \<times> gapInfo) option" where
  "firstMaxObservation k obs =
     (let candidates = filter (\<lambda>ob. observes k (snd ob)) obs
      in if candidates = [] then None
         else find (\<lambda>ob. gapValue (snd ob) = Max (set (map (\<lambda>ob. gapValue (snd ob)) candidates)))
                candidates)"

text \<open>The keys of the valid observations, in order, and a list without its repetitions.\<close>

definition observedKeys :: "(tourShow \<times> gapInfo) list \<Rightarrow> string list" where
  "observedKeys obs =
     concat (map (\<lambda>ob. if invalidGap (snd ob) then []
                         else case toLowerCase (songName (snd ob)) of Inr k \<Rightarrow> [k] | Inl e \<Rightarrow> []) obs)"

definition firstOccurrences :: "'a list \<Rightarrow> 'a list" where
  "firstOccurrences xs = rev (remdups (rev xs))"

text \<open>A comparator orders a set of records by descending key \<open>k\<close>.\<close>

definition descendingBy :: "('a \<Rightarrow> int) \<Rightarrow> ('a \<Rightarrow> 'a \<Rightarrow> int) \<Rightarrow> 'a set \<Rightarrow> bool" where
  "descendingBy k cmp A = (\<forall>x\<in>A. \<forall>y\<in>A. (cmp x y \<le> 0) = (k y \<le> k x))"

text \<open>
  Every observation of a show given other embedded \<^verbatim>\<open>tourDate\<close> and \<^verbatim>\<open>tourVenue\<close> values.
\<close>

definition withEmbedded :: "(gapInfo \<Rightarrow> jsval \<times> jsval) \<Rightarrow> tourShow \<Rightarrow> tourShow" where
  "withEmbedded f sh =
     sh\<lparr>songGaps :=
          map_option (map (\<lambda>gi. gi\<lparr>tourDate := fst (f gi), tourVenue := snd (f gi)\<rparr>)) (songGaps sh)\<rparr>"

text \<open>
  Object literals as the unit tests write them: an observation with a name and a gap, a
  show, a track with a name and a duration; every other property is missing.
\<close>

definition gapRecord :: "string \<Rightarrow> int \<Rightarrow> gapInfo" where
  "gapRecord n g =
     \<lparr> songName = JStr n, gap = JNum g, lastPlayed = JUndefined, tourDate = JUndefined,
       tourVenue = JUndefined, timesPlayed = JUndefined, historicalVenue = JUndefined,
       historicalCity = JUndefined, historicalState = JUndefined,
       historicalLastPlayed = JUndefined \<rparr>"

definition showRecord :: "string \<Rightarrow> string \<Rightarrow> gapInfo list \<Rightarrow> tourShow" where
  "showRecord d v gis = \<lparr> showDate = JStr d, venue = JStr v, songGaps = Some gis \<rparr>"

definition trackRecord :: "string \<Rightarrow> int \<Rightarrow> track" where
  "trackRecord n d =
     \<lparr> songNameT = JStr n, durationSeconds = JNum d, showDateT = JUndefined,
       venueT = JUndefined, venueRun = None \<rparr>"

section \<open>Lemmas\<close>

subsection \<open>Sorting\<close>

lemma insertBy_insort_key:
  assumes "descendingBy k cmp (insert x (set ys))"
  shows "insertBy cmp x ys = insort_key (\<lambda>a. - k a) x ys"
  using assms by (induction ys) (auto simp: descendingBy_def)

lemma arraySort_sort_key:
  assumes "descendingBy k cmp (set xs)"
  shows "arraySort cmp xs = sort_key (\<lambda>a. - k a) xs"
  using assms
proof (induction xs)
  case Nil
  show ?case by (simp add: arraySort_def)
next
  case (Cons x xs)
  have sub: "descendingBy k cmp (set xs)"
    using Cons.prems by (simp add: descendingBy_def)
  have eq: "arraySort cmp xs = sort_key (\<lambda>a. - k a) xs"
    by (rule Cons.IH [OF sub])
  have ins: "descendingBy k cmp (insert x (set (sort_key (\<lambda>a. - k a) xs)))"
    using Cons.prems by simp
  have "arraySort cmp (x # xs) = insertBy cmp x (arraySort cmp xs)"
    by (simp add: arraySort_def)
  also have "\<dots> = insort_key (\<lambda>a. - k a) x (sort_key (\<lambda>a. - k a) xs)"
    unfolding eq by (rule insertBy_insort_key [OF ins])
  finally show ?case by simp
qed

lemma mset_insertBy: "mset (insertBy cmp x ys) = add_mset x (mset ys)"
  by (induction ys) auto

lemma mset_arraySort: "mset (arraySort cmp xs) = mset xs"
  by (induction xs) (auto simp: arraySort_def mset_insertBy)

lemma set_arraySort: "set (arraySort cmp xs) = set xs"
  using mset_arraySort [of cmp xs] by (metis set_mset_mset)

lemma length_arraySort: "length (arraySort cmp xs) = length xs"
  using mset_arraySort [of cmp xs] by (metis size_mset)

lemma arraySort_descending:
  assumes "descendingBy k cmp (set xs)"
  shows "sorted_wrt (\<lambda>a b. k b \<le> k a) (arraySort cmp xs)"
proof -
  have "sorted (map (\<lambda>a. - k a) (sort_key (\<lambda>a. - k a) xs))"
    by (rule sorted_sort_key)
  then have "sorted_wrt (\<lambda>a b. - k a \<le> - k b) (sort_key (\<lambda>a. - k a) xs)"
    by (simp add: sorted_map)
  then show ?thesis
    by (simp add: arraySort_sort_key [OF assms])
qed

lemma arraySort_stable:
  assumes "descendingBy k cmp (set xs)"
  shows "filter (\<lambda>a. k a = v) (arraySort cmp xs) = filter (\<lambda>a. k a = v) xs"
proof -
  have "filter (\<lambda>a. - k a = - v) (sort_key (\<lambda>a. - k a) xs) = filter (\<lambda>a. - k a = - v) xs"
    by (rule sort_key_stable)
  then show ?thesis
    by (simp add: arraySort_sort_key [OF assms])
qed

subsection \<open>The nested loops as one loop\<close>

lemma forEachGap_observations:
  "forEachGap sh m gis = forEachObservation m (map (Pair sh) gis)"
  by (induction gis arbitrary: m) (auto split: sum.splits)

lemma forEachObservation_append:
  "forEachObservation m (xs @ ys) =
     (case forEachObservation m xs of Inl e \<Rightarrow> Inl e | Inr m' \<Rightarrow> forEachObservation m' ys)"
  by (induction xs arbitrary: m) (auto split: sum.splits)

lemma forEachShow_observations:
  "forEachShow m shws = forEachObservation m (observations shws)"
proof (induction shws arbitrary: m)
  case Nil
  show ?case by (simp add: observations_def)
next
  case (Cons sh shs)
  have split: "observations (sh # shs) =
      (case songGaps sh of None \<Rightarrow> [] | Some gis \<Rightarrow> map (Pair sh) gis) @ observations shs"
    by (simp add: observations_def)
  show ?case
  proof (cases "songGaps sh")
    case None
    then show ?thesis
      using Cons.IH by (simp add: split visitShow_def)
  next
    case (Some gis)
    then show ?thesis
      using Cons.IH
      by (simp add: split visitShow_def forEachObservation_append forEachGap_observations
          split: sum.splits)
  qed
qed

lemma forEachObservation_snoc:
  "forEachObservation m (xs @ [x]) =
     (case forEachObservation m xs of Inl e \<Rightarrow> Inl e | Inr m' \<Rightarrow> visitGap (fst x) m' (snd x))"
  by (simp add: forEachObservation_append split: sum.splits)

subsection \<open>The Map\<close>

lemma mapGet_mapSet: "mapGet (mapSet m k v) k' = (if k' = k then Some v else mapGet m k')"
  by (induction m) (auto simp: mapGet_def)

lemma mapGet_None_iff: "mapGet m k = None \<longleftrightarrow> k \<notin> set (map fst m)"
  by (simp add: mapGet_def map_of_eq_None_iff)

lemma keys_mapSet:
  "map fst (mapSet m k v) = (if k \<in> set (map fst m) then map fst m else map fst m @ [k])"
  by (induction m) auto

lemma mapGet_in_values: "mapGet m k = Some e \<Longrightarrow> e \<in> set (mapValues m)"
  unfolding mapGet_def mapValues_def by (metis map_of_SomeD set_zip_rightD zip_map_fst_snd)

lemma in_values_mapGet:
  assumes "distinct (map fst m)" and "e \<in> set (mapValues m)"
  shows "\<exists>k. mapGet m k = Some e"
proof -
  from assms(2) obtain k where "(k, e) \<in> set m"
    by (auto simp: mapValues_def)
  with assms(1) have "map_of m k = Some e" by simp
  then show ?thesis by (auto simp: mapGet_def)
qed

subsection \<open>One step\<close>

lemma observes_gap: "observes k gi \<Longrightarrow> gap gi = JNum (gapValue gi) \<and> 0 \<le> gapValue gi"
  by (auto simp: observes_def invalidGap_def gapValue_def split: jsval.splits)

lemma observes_unique: "observes k gi \<Longrightarrow> observes k' gi \<Longrightarrow> k = k'"
  by (simp add: observes_def)

lemma visitGap_invalid: "invalidGap gi \<Longrightarrow> visitGap sh m gi = Inr m"
  by (simp add: visitGap_def)

lemma visitGap_new:
  "observes k gi \<Longrightarrow> mapGet m k = None \<Longrightarrow> visitGap sh m gi = Inr (mapSet m k (storedEntry sh gi))"
  by (simp add: visitGap_def observes_def)

lemma visitGap_existing:
  "observes k gi \<Longrightarrow> mapGet m k = Some e \<Longrightarrow>
     visitGap sh m gi = Inr (if jsGt (gap gi) (gap e) then mapSet m k (storedEntry sh gi) else m)"
  by (simp add: visitGap_def observes_def)

lemma not_observed_invalid:
  assumes "visitGap sh m gi = Inr m'" and "\<forall>k. \<not> observes k gi"
  shows "m' = m"
  using assms by (auto simp: visitGap_def observes_def split: if_splits sum.splits)

subsection \<open>The first observation of the maximal gap\<close>

lemma find_append_cases:
  "find P (xs @ ys) = (case find P xs of None \<Rightarrow> find P ys | Some x \<Rightarrow> Some x)"
  by (induction xs) auto

lemma Max_snoc:
  "cs \<noteq> [] \<Longrightarrow> Max (set (map f (cs @ [x]))) = max (f x) (Max (set (map f cs)))"
  by simp

lemma find_Max_Some:
  assumes "cs \<noteq> []"
  shows "\<exists>c. find (\<lambda>ob. f ob = Max (set (map f cs))) cs = Some c \<and> c \<in> set cs \<and> f c = Max (set (map f cs))"
proof -
  have "Max (set (map f cs)) \<in> set (map f cs)"
    using assms by (intro Max_in) auto
  then obtain c where "c \<in> set cs" "f c = Max (set (map f cs))"
    by auto
  then have "find (\<lambda>ob. f ob = Max (set (map f cs))) cs \<noteq> None"
    by (auto simp: find_None_iff)
  then obtain d where d: "find (\<lambda>ob. f ob = Max (set (map f cs))) cs = Some d"
    by auto
  then have "d \<in> set cs \<and> f d = Max (set (map f cs))"
    by (auto simp: find_Some_iff)
  with d show ?thesis by blast
qed

lemma firstMaxObservation_None:
  "firstMaxObservation k obs = None \<longleftrightarrow> (\<forall>ob\<in>set obs. \<not> observes k (snd ob))"
proof (cases "filter (\<lambda>ob. observes k (snd ob)) obs = []")
  case True
  then show ?thesis
    by (auto simp: firstMaxObservation_def filter_empty_conv)
next
  case False
  from find_Max_Some [OF False, of "\<lambda>ob. gapValue (snd ob)"] False show ?thesis
    by (auto simp: firstMaxObservation_def Let_def filter_empty_conv)
qed

lemma firstMaxObservation_Some:
  assumes "firstMaxObservation k obs = Some w"
  shows "w \<in> set obs \<and> observes k (snd w) \<and>
         gapValue (snd w) = Max (set (map (\<lambda>ob. gapValue (snd ob)) (filter (\<lambda>ob. observes k (snd ob)) obs)))"
proof -
  let ?cs = "filter (\<lambda>ob. observes k (snd ob)) obs"
  have ne: "?cs \<noteq> []"
    using assms by (auto simp: firstMaxObservation_def Let_def split: if_splits)
  from find_Max_Some [OF ne, of "\<lambda>ob. gapValue (snd ob)"] assms ne show ?thesis
    by (auto simp: firstMaxObservation_def Let_def)
qed

lemma firstMaxObservation_skip:
  assumes "\<not> observes k (snd x)"
  shows "firstMaxObservation k (obs @ [x]) = firstMaxObservation k obs"
  using assms by (simp add: firstMaxObservation_def)

lemma firstMaxObservation_first:
  assumes "observes k (snd x)" and "firstMaxObservation k obs = None"
  shows "firstMaxObservation k (obs @ [x]) = Some x"
proof -
  have "filter (\<lambda>ob. observes k (snd ob)) obs = []"
    using assms(2) by (auto simp: firstMaxObservation_None filter_empty_conv)
  then show ?thesis
    using assms(1) by (simp add: firstMaxObservation_def)
qed

lemma firstMaxObservation_later:
  assumes x: "observes k (snd x)" and w: "firstMaxObservation k obs = Some w"
  shows "firstMaxObservation k (obs @ [x]) =
           Some (if gapValue (snd w) < gapValue (snd x) then x else w)"
proof -
  let ?f = "\<lambda>ob. gapValue (snd ob)"
  let ?cs = "filter (\<lambda>ob. observes k (snd ob)) obs"
  have ne: "?cs \<noteq> []"
    using w by (auto simp: firstMaxObservation_def Let_def split: if_splits)
  have wmax: "?f w = Max (set (map ?f ?cs))"
    using firstMaxObservation_Some [OF w] by simp
  have wfind: "find (\<lambda>ob. ?f ob = Max (set (map ?f ?cs))) ?cs = Some w"
    using w ne by (simp add: firstMaxObservation_def Let_def)
  have cs': "filter (\<lambda>ob. observes k (snd ob)) (obs @ [x]) = ?cs @ [x]"
    using x by simp
  have max': "Max (set (map ?f (?cs @ [x]))) = max (?f x) (?f w)"
    unfolding wmax by (rule Max_snoc [OF ne])
  have fm: "firstMaxObservation k (obs @ [x]) =
        find (\<lambda>ob. ?f ob = max (?f x) (?f w)) (?cs @ [x])"
    unfolding firstMaxObservation_def Let_def cs' max' by simp
  show ?thesis
  proof (cases "?f w < ?f x")
    case True
    have "\<forall>c\<in>set ?cs. ?f c \<le> ?f w"
      unfolding wmax by (intro ballI Max_ge) auto
    then have "find (\<lambda>ob. ?f ob = ?f x) ?cs = None"
      using True by (fastforce simp: find_None_iff)
    then show ?thesis
      using True by (simp add: fm find_append_cases max_def)
  next
    case False
    then have "max (?f x) (?f w) = ?f w" by simp
    then show ?thesis
      using False wfind by (simp add: fm find_append_cases wmax)
  qed
qed

subsection \<open>What the Map holds after the loops\<close>

lemma retained_step:
  assumes inv: "\<forall>k. mapGet m k = map_option (\<lambda>ob. storedEntry (fst ob) (snd ob)) (firstMaxObservation k obs)"
    and step: "visitGap (fst x) m (snd x) = Inr m'"
  shows "mapGet m' k = map_option (\<lambda>ob. storedEntry (fst ob) (snd ob)) (firstMaxObservation k (obs @ [x]))"
proof (cases "\<exists>k0. observes k0 (snd x)")
  case False
  then have "m' = m"
    using not_observed_invalid [OF step] by blast
  then show ?thesis
    using False inv by (simp add: firstMaxObservation_skip)
next
  case True
  then obtain k0 where k0: "observes k0 (snd x)" by blast
  show ?thesis
  proof (cases "firstMaxObservation k0 obs")
    case None
    then have "mapGet m k0 = None" using inv by simp
    then have m': "m' = mapSet m k0 (storedEntry (fst x) (snd x))"
      using visitGap_new [OF k0, of m "fst x"] step by simp
    show ?thesis
    proof (cases "k = k0")
      case True
      then show ?thesis
        using None k0 by (simp add: m' mapGet_mapSet firstMaxObservation_first)
    next
      case False
      then have "\<not> observes k (snd x)"
        using k0 observes_unique by blast
      then show ?thesis
        using False inv by (simp add: m' mapGet_mapSet firstMaxObservation_skip)
    qed
  next
    case (Some w)
    then have get: "mapGet m k0 = Some (storedEntry (fst w) (snd w))" using inv by simp
    have wobs: "observes k0 (snd w)"
      using firstMaxObservation_Some [OF Some] by simp
    have gt: "jsGt (gap (snd x)) (gap (storedEntry (fst w) (snd w))) = (gapValue (snd w) < gapValue (snd x))"
      using observes_gap [OF k0] observes_gap [OF wobs] by (simp add: storedEntry_def)
    have m': "m' = (if gapValue (snd w) < gapValue (snd x)
                    then mapSet m k0 (storedEntry (fst x) (snd x)) else m)"
      using visitGap_existing [OF k0 get, of "fst x"] step gt by simp
    show ?thesis
    proof (cases "k = k0")
      case True
      then show ?thesis
        using firstMaxObservation_later [OF k0 Some] get
        by (simp add: m' mapGet_mapSet)
    next
      case False
      then have "\<not> observes k (snd x)"
        using k0 observes_unique by blast
      then show ?thesis
        using False inv by (simp add: m' mapGet_mapSet firstMaxObservation_skip)
    qed
  qed
qed

lemma retained_entries:
  assumes "forEachObservation [] obs = Inr m"
  shows "mapGet m k = map_option (\<lambda>ob. storedEntry (fst ob) (snd ob)) (firstMaxObservation k obs)"
  using assms
proof (induction obs arbitrary: m k rule: rev_induct)
  case Nil
  then show ?case by (simp add: mapGet_def firstMaxObservation_def)
next
  case (snoc x obs)
  from snoc.prems obtain m0 where m0: "forEachObservation [] obs = Inr m0"
    and step: "visitGap (fst x) m0 (snd x) = Inr m"
    by (auto simp: forEachObservation_snoc split: sum.splits)
  have "\<forall>k. mapGet m0 k = map_option (\<lambda>ob. storedEntry (fst ob) (snd ob)) (firstMaxObservation k obs)"
    using snoc.IH [OF m0] by blast
  from retained_step [OF this step] show ?case .
qed

subsection \<open>The order of the keys\<close>

lemma firstOccurrences_snoc:
  "firstOccurrences (xs @ [x]) = (if x \<in> set xs then firstOccurrences xs else firstOccurrences xs @ [x])"
  by (simp add: firstOccurrences_def)

lemma set_firstOccurrences: "set (firstOccurrences xs) = set xs"
  by (simp add: firstOccurrences_def)

lemma distinct_firstOccurrences: "distinct (firstOccurrences xs)"
  by (simp add: firstOccurrences_def)

lemma observedKeys_snoc_observed:
  "observes k (snd x) \<Longrightarrow> observedKeys (obs @ [x]) = observedKeys obs @ [k]"
  by (simp add: observedKeys_def observes_def)

lemma observedKeys_snoc_skip:
  "\<forall>k. \<not> observes k (snd x) \<Longrightarrow> observedKeys (obs @ [x]) = observedKeys obs"
  by (auto simp: observedKeys_def observes_def split: sum.splits)

lemma retained_keys:
  assumes "forEachObservation [] obs = Inr m"
  shows "map fst m = firstOccurrences (observedKeys obs)"
  using assms
proof (induction obs arbitrary: m rule: rev_induct)
  case Nil
  then show ?case by (simp add: observedKeys_def firstOccurrences_def)
next
  case (snoc x obs)
  from snoc.prems obtain m0 where m0: "forEachObservation [] obs = Inr m0"
    and step: "visitGap (fst x) m0 (snd x) = Inr m"
    by (auto simp: forEachObservation_snoc split: sum.splits)
  have keys0: "map fst m0 = firstOccurrences (observedKeys obs)"
    by (rule snoc.IH [OF m0])
  show ?case
  proof (cases "\<exists>k. observes k (snd x)")
    case False
    then have "m = m0"
      using not_observed_invalid [OF step] by blast
    then show ?thesis
      using False keys0 by (simp add: observedKeys_snoc_skip)
  next
    case True
    then obtain k where k: "observes k (snd x)" by blast
    have mem: "k \<in> set (map fst m0) \<longleftrightarrow> k \<in> set (observedKeys obs)"
      by (simp only: keys0 set_firstOccurrences)
    show ?thesis
    proof (cases "mapGet m0 k")
      case None
      then have notin: "k \<notin> set (map fst m0)"
        by (simp add: mapGet_None_iff)
      have "m = mapSet m0 k (storedEntry (fst x) (snd x))"
        using visitGap_new [OF k None, of "fst x"] step by simp
      then have "map fst m = map fst m0 @ [k]"
        using notin by (simp only: keys_mapSet if_False)
      then show ?thesis
        using notin mem keys0
        by (simp add: observedKeys_snoc_observed [OF k] firstOccurrences_snoc)
    next
      case (Some e)
      then have isin: "k \<in> set (map fst m0)"
        using mapGet_None_iff [of m0 k] by simp
      have "m = (if jsGt (gap (snd x)) (gap e) then mapSet m0 k (storedEntry (fst x) (snd x)) else m0)"
        using visitGap_existing [OF k Some, of "fst x"] step by simp
      then have "map fst m = map fst m0"
        using isin by (simp add: keys_mapSet)
      then show ?thesis
        using isin mem keys0
        by (simp add: observedKeys_snoc_observed [OF k] firstOccurrences_snoc)
    qed
  qed
qed

lemma retained_distinct:
  assumes "forEachObservation [] obs = Inr m"
  shows "distinct (map fst m)"
  by (simp add: retained_keys [OF assms] distinct_firstOccurrences)

lemma retained_value:
  assumes run: "forEachObservation [] obs = Inr m" and e: "e \<in> set (mapValues m)"
  shows "\<exists>k sh gi. mapGet m k = Some e \<and> firstMaxObservation k obs = Some (sh, gi)
           \<and> (sh, gi) \<in> set obs \<and> observes k gi \<and> e = storedEntry sh gi"
proof -
  from in_values_mapGet [OF retained_distinct [OF run] e]
  obtain k where k: "mapGet m k = Some e" by blast
  with retained_entries [OF run, of k]
  obtain w where w: "firstMaxObservation k obs = Some w" and ew: "e = storedEntry (fst w) (snd w)"
    by (cases "firstMaxObservation k obs") auto
  from firstMaxObservation_Some [OF w] have "w \<in> set obs" "observes k (snd w)"
    by simp_all
  with k w ew show ?thesis
    by (intro exI [of _ k] exI [of _ "fst w"] exI [of _ "snd w"]) simp
qed



lemma rarest_result:
  "calculateTourProgressiveRarestSongs shws =
     (case forEachObservation [] (observations shws) of
        Inl e \<Rightarrow> Inl e
      | Inr m \<Rightarrow> Inr (take 3 (arraySort byGapDesc (mapValues m))))"
proof (cases "shws = []")
  case True
  then show ?thesis
    by (simp add: calculateTourProgressiveRarestSongs_def observations_def mapValues_def arraySort_def)
next
  case False
  then show ?thesis
    by (simp add: calculateTourProgressiveRarestSongs_def forEachShow_observations Let_def
        split: sum.splits)
qed

subsection \<open>The store\<close>

lemma longest_store:
  "calculateLongestSongsIn a s = (r, s') \<Longrightarrow>
     arrays s' r = calculateLongestSongs (arrays s a) \<and> nextRef s \<le> r \<and> r < nextRef s'
     \<and> (\<forall>p. p < nextRef s \<longrightarrow> arrays s' p = arrays s p)"
  by (auto simp: calculateLongestSongsIn_def calculateLongestSongs_def newArray_def sortInPlace_def
      Let_def split: if_splits prod.splits)


lemma rarest_store_frame:
  "calculateTourProgressiveRarestSongsIn a h = (res, h') \<Longrightarrow>
     showArrays h' = showArrays h \<and> nextRef (gapArrays h) \<le> nextRef (gapArrays h') \<and>
     (\<forall>p. p < nextRef (gapArrays h) \<longrightarrow> arrays (gapArrays h') p = arrays (gapArrays h) p) \<and>
     (\<forall>r. res = Inr r \<longrightarrow> nextRef (gapArrays h) \<le> r \<and> r < nextRef (gapArrays h'))"
  by (auto simp: calculateTourProgressiveRarestSongsIn_def newArray_def sortInPlace_def
      Let_def split: if_splits prod.splits sum.splits)

subsection \<open>The fallback track durations\<close>







subsection \<open>The output and the embedded attribution\<close>

lemma in_observations:
  "(sh, gi) \<in> set (observations shs) \<longleftrightarrow>
     sh \<in> set shs \<and> (\<exists>gis. songGaps sh = Some gis \<and> gi \<in> set gis)"
proof
  assume "(sh, gi) \<in> set (observations shs)"
  then obtain x where x: "x \<in> set shs"
    and mem: "(sh, gi) \<in> set (case songGaps x of None \<Rightarrow> [] | Some gis \<Rightarrow> map (Pair x) gis)"
    by (auto simp: observations_def)
  then show "sh \<in> set shs \<and> (\<exists>gis. songGaps sh = Some gis \<and> gi \<in> set gis)"
    by (cases "songGaps x") auto
next
  assume "sh \<in> set shs \<and> (\<exists>gis. songGaps sh = Some gis \<and> gi \<in> set gis)"
  then obtain gis where "sh \<in> set shs" "songGaps sh = Some gis" "gi \<in> set gis"
    by blast
  then have "\<exists>x\<in>set shs. (sh, gi) \<in> set (case songGaps x of None \<Rightarrow> [] | Some gis \<Rightarrow> map (Pair x) gis)"
    by (intro bexI [of _ sh]) simp_all
  then show "(sh, gi) \<in> set (observations shs)"
    by (simp add: observations_def)
qed

lemma output_retained:
  assumes "forEachShow [] shs = Inr m" and "calculateTourProgressiveRarestSongs shs = Inr out"
  shows "set out \<subseteq> set (mapValues m)"
proof -
  have "out = take 3 (arraySort byGapDesc (mapValues m))"
    using assms by (simp add: rarest_result forEachShow_observations [symmetric])
  then show ?thesis
    using set_take_subset [of 3 "arraySort byGapDesc (mapValues m)"]
    by (simp add: set_arraySort)
qed

lemma visitGap_withEmbedded:
  assumes "showDate sh' = showDate sh" and "venue sh' = venue sh"
  shows "visitGap sh' m (gi\<lparr>tourDate := a, tourVenue := b\<rparr>) = visitGap sh m gi"
proof -
  have "storedEntry sh' (gi\<lparr>tourDate := a, tourVenue := b\<rparr>) = storedEntry sh gi"
    using assms by (simp add: storedEntry_def)
  moreover have "invalidGap (gi\<lparr>tourDate := a, tourVenue := b\<rparr>) = invalidGap gi"
    by (simp add: invalidGap_def)
  ultimately show ?thesis
    by (simp add: visitGap_def split: sum.splits option.splits)
qed

lemma forEachGap_withEmbedded:
  assumes "showDate sh' = showDate sh" and "venue sh' = venue sh"
  shows "forEachGap sh' m (map (\<lambda>gi. gi\<lparr>tourDate := fst (f gi), tourVenue := snd (f gi)\<rparr>) gis)
           = forEachGap sh m gis"
  by (induction gis arbitrary: m) (simp_all add: visitGap_withEmbedded [OF assms] split: sum.splits)

lemma visitShow_withEmbedded: "visitShow m (withEmbedded f sh) = visitShow m sh"
  by (cases "songGaps sh") (simp_all add: visitShow_def withEmbedded_def forEachGap_withEmbedded)

lemma forEachShow_withEmbedded: "forEachShow m (map (withEmbedded f) shs) = forEachShow m shs"
  by (induction shs arbitrary: m) (simp_all add: visitShow_withEmbedded split: sum.splits)

lemma rarest_withEmbedded:
  "calculateTourProgressiveRarestSongs (map (withEmbedded f) shs) = calculateTourProgressiveRarestSongs shs"
  by (simp add: calculateTourProgressiveRarestSongs_def forEachShow_withEmbedded)


subsection \<open>Valid tracks\<close>

lemma validTrack_iff:
  "validTrack t \<longleftrightarrow> (\<exists>n. durationSeconds t = JNum n \<and> 0 < n) \<and> truthy (songNameT t)"
  by (cases "durationSeconds t") (simp_all add: validTrack_def)

lemma valid_descendingBy:
  assumes "\<forall>t\<in>A. validTrack t"
  shows "descendingBy durationValue byDurationDesc A"
  unfolding descendingBy_def
proof (intro ballI)
  fix a b assume "a \<in> A" "b \<in> A"
  then have "validTrack a" "validTrack b"
    using assms by blast+
  then obtain x y where "durationSeconds a = JNum x" "durationSeconds b = JNum y"
    unfolding validTrack_iff by blast
  then show "(byDurationDesc a b \<le> 0) = (durationValue b \<le> durationValue a)"
    by (simp add: byDurationDesc_def durationValue_def)
qed

lemma longest_result:
  "calculateLongestSongs tracks = take 3 (arraySort byDurationDesc (filter validTrack tracks))"
  by (simp add: calculateLongestSongs_def arraySort_def)

subsection \<open>Returning normally\<close>

lemma visitGap_returns:
  assumes "\<not> truthy (songName gi) \<or> (\<exists>s. songName gi = JStr s)"
  shows "\<exists>m'. visitGap sh m gi = Inr m'"
proof (cases "invalidGap gi")
  case True
  then show ?thesis by (simp add: visitGap_def)
next
  case False
  then have "truthy (songName gi)" by (simp add: invalidGap_def)
  with assms obtain s where "songName gi = JStr s" by blast
  then show ?thesis
    using False by (simp add: visitGap_def split: option.splits)
qed

lemma forEachObservation_returns:
  assumes "\<forall>ob\<in>set obs. \<not> truthy (songName (snd ob)) \<or> (\<exists>s. songName (snd ob) = JStr s)"
  shows "\<exists>m'. forEachObservation m obs = Inr m'"
  using assms
proof (induction obs arbitrary: m)
  case Nil
  show ?case by simp
next
  case (Cons ob obs)
  from Cons.prems have "\<not> truthy (songName (snd ob)) \<or> (\<exists>s. songName (snd ob) = JStr s)"
    by simp
  from visitGap_returns [OF this] obtain m1 where m1: "visitGap (fst ob) m (snd ob) = Inr m1"
    by blast
  from Cons.prems have "\<forall>ob\<in>set obs. \<not> truthy (songName (snd ob)) \<or> (\<exists>s. songName (snd ob) = JStr s)"
    by simp
  from Cons.IH [OF this, of m1] show ?case
    by (simp add: m1)
qed

lemma invalidGap_cases:
  "songName gi = JUndefined \<or> songName gi = JNull \<or> songName gi = JStr [] \<or> gap gi = JUndefined
     \<or> gap gi = JNull \<or> (\<exists>s. gap gi = JStr s) \<or> (\<exists>b. gap gi = JBool b)
     \<or> (\<exists>n. gap gi = JNum n \<and> n < 0) \<Longrightarrow> invalidGap gi"
  by (auto simp: invalidGap_def)

lemma single_gap_zero:
  assumes "songName gi = JStr s" and "s \<noteq> []" and "gap gi = JNum 0" and "songGaps sh = Some [gi]"
  shows "calculateTourProgressiveRarestSongs [sh] = Inr [storedEntry sh gi]"
  using assms
  by (simp add: calculateTourProgressiveRarestSongs_def visitShow_def visitGap_def invalidGap_def
      mapGet_def mapValues_def arraySort_def)

subsection \<open>Reading the input back\<close>

lemma readShows_frame:
  assumes "showArrays h' = showArrays h"
    and "\<forall>p. p < nextRef (gapArrays h) \<longrightarrow> arrays (gapArrays h') p = arrays (gapArrays h) p"
    and "\<forall>ob\<in>set (arrays (showArrays h) a). \<forall>g. songGapsRef ob = Some g \<longrightarrow> g < nextRef (gapArrays h)"
  shows "readShows h' a = readShows h a"
proof -
  have "readShow h' ob = readShow h ob" if "ob \<in> set (arrays (showArrays h) a)" for ob
    using that assms(2,3) by (cases "songGapsRef ob") (auto simp: readShow_def)
  then show ?thesis
    by (simp add: readShows_def assms(1))
qed


subsection \<open>The selector on the fallback durations\<close>


subsection \<open>The aggregator\<close>

lemma rarest_returns:
  assumes "\<forall>sh\<in>set shs. \<forall>gis. songGaps sh = Some gis \<longrightarrow>
             (\<forall>gi\<in>set gis. \<not> truthy (songName gi) \<or> (\<exists>s. songName gi = JStr s))"
  shows "\<exists>out. calculateTourProgressiveRarestSongs shs = Inr out"
proof -
  have "\<forall>ob\<in>set (observations shs). \<not> truthy (songName (snd ob)) \<or> (\<exists>s. songName (snd ob) = JStr s)"
  proof
    fix ob assume "ob \<in> set (observations shs)"
    then have "(fst ob, snd ob) \<in> set (observations shs)" by simp
    then have "fst ob \<in> set shs \<and> (\<exists>gis. songGaps (fst ob) = Some gis \<and> snd ob \<in> set gis)"
      by (simp only: in_observations)
    with assms show "\<not> truthy (songName (snd ob)) \<or> (\<exists>s. songName (snd ob) = JStr s)"
      by blast
  qed
  from forEachObservation_returns [OF this, of "[]"] show ?thesis
    by (auto simp: rarest_result)
qed









section \<open>The claims\<close>



text \<open>
  Claim C2, as stated, fails when the venue of the show is present but falsy: for the
  empty string the reducer stores the sentinel, not the venue of the show.
\<close>

theorem empty_venue_gets_sentinel:
  "calculateTourProgressiveRarestSongs
     [\<lparr> showDate = JStr ''2025-07-18'', venue = JStr '''',
        songGaps = Some [gapRecord ''On Your Way Down'' 522] \<rparr>]
   = Inr
     [\<lparr> songName = JStr ''On Your Way Down'', gap = JNum 522, lastPlayed = JNull,
        tourDate = JStr ''2025-07-18'', tourVenue = JStr ''Unknown Venue'',
        timesPlayed = JNum 100, historicalVenue = JNull, historicalCity = JNull,
        historicalState = JNull, historicalLastPlayed = JUndefined \<rparr>]"
  by (simp add: calculateTourProgressiveRarestSongs_def visitShow_def visitGap_def invalidGap_def
      storedEntry_def mapGet_def mapValues_def arraySort_def jsOr_def
      gapRecord_def toLowerChar_def lowerTable_def)

text \<open>
  Claim C2, amended. Every retained record takes its \<^verbatim>\<open>tourDate\<close> from the \<^verbatim>\<open>showDate\<close> of
  the show that carries the winning observation, and its \<^verbatim>\<open>tourVenue\<close> from the \<^verbatim>\<open>venue\<close>
  of that show when that value is truthy, the sentinel \<^verbatim>\<open>Unknown Venue\<close> otherwise (a
  missing venue, but also \<^verbatim>\<open>null\<close> or the empty string). The \<^verbatim>\<open>tourDate\<close> and \<^verbatim>\<open>tourVenue\<close>
  embedded in the observations never reach the result: replacing them by any other values
  leaves the result unchanged. Every returned record is a retained one.
\<close>

theorem rarest_attribution_from_show:
  assumes run: "forEachShow [] shs = Inr tourSongGaps" and get: "mapGet tourSongGaps k = Some e"
  shows "(\<exists>sh gis gi. sh \<in> set shs \<and> songGaps sh = Some gis \<and> gi \<in> set gis
            \<and> firstMaxObservation k (observations shs) = Some (sh, gi)
            \<and> tourDate e = showDate sh
            \<and> tourVenue e = (if truthy (venue sh) then venue sh else JStr ''Unknown Venue''))
       \<and> calculateTourProgressiveRarestSongs (map (withEmbedded f) shs)
           = calculateTourProgressiveRarestSongs shs
       \<and> (\<forall>out. calculateTourProgressiveRarestSongs shs = Inr out \<longrightarrow>
             set out \<subseteq> set (mapValues tourSongGaps))"
proof -
  have run': "forEachObservation [] (observations shs) = Inr tourSongGaps"
    using run by (simp add: forEachShow_observations)
  from retained_entries [OF run', of k] get
  obtain w where w: "firstMaxObservation k (observations shs) = Some w"
    and e: "e = storedEntry (fst w) (snd w)"
    by (cases "firstMaxObservation k (observations shs)") auto
  have "(fst w, snd w) \<in> set (observations shs)"
    using firstMaxObservation_Some [OF w] by simp
  then have "fst w \<in> set shs \<and> (\<exists>gis. songGaps (fst w) = Some gis \<and> snd w \<in> set gis)"
    by (simp only: in_observations)
  then obtain gis where "fst w \<in> set shs" "songGaps (fst w) = Some gis" "snd w \<in> set gis"
    by blast
  moreover have "tourDate e = showDate (fst w)"
    and "tourVenue e = (if truthy (venue (fst w)) then venue (fst w) else JStr ''Unknown Venue'')"
    by (simp_all add: e storedEntry_def jsOr_def)
  ultimately have "\<exists>sh gis gi. sh \<in> set shs \<and> songGaps sh = Some gis \<and> gi \<in> set gis
            \<and> firstMaxObservation k (observations shs) = Some (sh, gi)
            \<and> tourDate e = showDate sh
            \<and> tourVenue e = (if truthy (venue sh) then venue sh else JStr ''Unknown Venue'')"
    using w by (intro exI [of _ "fst w"] exI [of _ gis] exI [of _ "snd w"]) simp
  then show ?thesis
    using rarest_withEmbedded [of f shs] output_retained [OF run] by blast
qed

theorem rarest_attribution_from_show_witness:
  "forEachShow []
     [\<lparr> showDate = JStr ''d1'', venue = JStr ''v1'',
        songGaps = Some [(gapRecord ''A'' 5)\<lparr>tourDate := JStr ''d0'', tourVenue := JStr ''v0''\<rparr>] \<rparr>]
   = Inr [(''a'', (gapRecord ''A'' 5)\<lparr>tourDate := JStr ''d1'', tourVenue := JStr ''v1'',
                     lastPlayed := JNull, timesPlayed := JNum 100, historicalVenue := JNull,
                     historicalCity := JNull, historicalState := JNull\<rparr>)]
   \<and> mapGet [(''a'', (gapRecord ''A'' 5)\<lparr>tourDate := JStr ''d1'', tourVenue := JStr ''v1'',
                     lastPlayed := JNull, timesPlayed := JNum 100, historicalVenue := JNull,
                     historicalCity := JNull, historicalState := JNull\<rparr>)] ''a''
     = Some ((gapRecord ''A'' 5)\<lparr>tourDate := JStr ''d1'', tourVenue := JStr ''v1'',
                     lastPlayed := JNull, timesPlayed := JNum 100, historicalVenue := JNull,
                     historicalCity := JNull, historicalState := JNull\<rparr>)
   \<and> calculateTourProgressiveRarestSongs
       (map (withEmbedded (\<lambda>gi. (JStr ''d9'', JStr ''v9'')))
         [\<lparr> showDate = JStr ''d1'', venue = JStr ''v1'',
            songGaps = Some [(gapRecord ''A'' 5)\<lparr>tourDate := JStr ''d0'', tourVenue := JStr ''v0''\<rparr>] \<rparr>])
     = calculateTourProgressiveRarestSongs
         [\<lparr> showDate = JStr ''d1'', venue = JStr ''v1'',
            songGaps = Some [(gapRecord ''A'' 5)\<lparr>tourDate := JStr ''d0'', tourVenue := JStr ''v0''\<rparr>] \<rparr>]"
proof -
  let ?shs = "[\<lparr> showDate = JStr ''d1'', venue = JStr ''v1'',
        songGaps = Some [(gapRecord ''A'' 5)\<lparr>tourDate := JStr ''d0'', tourVenue := JStr ''v0''\<rparr>] \<rparr>]"
  let ?e = "(gapRecord ''A'' 5)\<lparr>tourDate := JStr ''d1'', tourVenue := JStr ''v1'',
                     lastPlayed := JNull, timesPlayed := JNum 100, historicalVenue := JNull,
                     historicalCity := JNull, historicalState := JNull\<rparr>"
  have run: "forEachShow [] ?shs = Inr [(''a'', ?e)]"
    by (simp add: visitShow_def visitGap_def invalidGap_def storedEntry_def mapGet_def
        jsOr_def gapRecord_def toLowerChar_def lowerTable_def)
  have get: "mapGet [(''a'', ?e)] ''a'' = Some ?e"
    by (simp add: mapGet_def)
  from rarest_attribution_from_show [OF run get, of "\<lambda>gi. (JStr ''d9'', JStr ''v9'')"] run get
  show ?thesis by blast
qed



text \<open>
  Claim C4. The longest-songs selector returns the valid tracks (a number greater than 0
  as \<^verbatim>\<open>durationSeconds\<close> and a truthy \<^verbatim>\<open>songName\<close>, which for a string means non-empty),
  sorted by non-increasing duration with tracks of equal duration in their input order,
  cut to the first three; no invalid track is returned, whatever its duration.
\<close>

theorem longest_songs_selection:
  "\<exists>ordered.
       mset ordered = mset (filter validTrack tracks)
     \<and> sorted_wrt (\<lambda>a b. durationValue b \<le> durationValue a) ordered
     \<and> (\<forall>d. filter (\<lambda>t. durationValue t = d) ordered
              = filter (\<lambda>t. durationValue t = d) (filter validTrack tracks))
     \<and> calculateLongestSongs tracks = take 3 ordered
     \<and> length (calculateLongestSongs tracks) = min 3 (length (filter validTrack tracks))
     \<and> (\<forall>i. Suc i < length (calculateLongestSongs tracks) \<longrightarrow>
            durationValue (calculateLongestSongs tracks ! Suc i)
              \<le> durationValue (calculateLongestSongs tracks ! i))
     \<and> (\<forall>t\<in>set (calculateLongestSongs tracks). t \<in> set tracks \<and> validTrack t)
     \<and> (\<forall>t. validTrack t \<longleftrightarrow>
            (\<exists>n. durationSeconds t = JNum n \<and> 0 < n) \<and> truthy (songNameT t))
     \<and> (\<forall>t s. songNameT t = JStr s \<longrightarrow> truthy (songNameT t) = (s \<noteq> []))
     \<and> (\<forall>t. songNameT t = JUndefined \<or> songNameT t = JNull \<longrightarrow> \<not> validTrack t)"
proof -
  let ?valid = "filter validTrack tracks"
  let ?ordered = "arraySort byDurationDesc ?valid"
  have desc: "descendingBy durationValue byDurationDesc (set ?valid)"
    by (rule valid_descendingBy) simp
  have perm: "mset ?ordered = mset ?valid"
    by (rule mset_arraySort)
  have sorted: "sorted_wrt (\<lambda>a b. durationValue b \<le> durationValue a) ?ordered"
    by (rule arraySort_descending [OF desc])
  have stable: "\<forall>d. filter (\<lambda>t. durationValue t = d) ?ordered = filter (\<lambda>t. durationValue t = d) ?valid"
    using arraySort_stable [OF desc] by blast
  have res: "calculateLongestSongs tracks = take 3 ?ordered"
    by (rule longest_result)
  have len: "length (calculateLongestSongs tracks) = min 3 (length ?valid)"
    by (simp add: res length_arraySort)
  have "sorted_wrt (\<lambda>a b. durationValue b \<le> durationValue a) (calculateLongestSongs tracks)"
    unfolding res using sorted by (rule sorted_wrt_take)
  then have adj: "\<forall>i. Suc i < length (calculateLongestSongs tracks) \<longrightarrow>
            durationValue (calculateLongestSongs tracks ! Suc i)
              \<le> durationValue (calculateLongestSongs tracks ! i)"
    by (simp add: sorted_wrt_iff_nth_less)
  have "set (calculateLongestSongs tracks) \<subseteq> set ?valid"
    unfolding res using set_take_subset [of 3 ?ordered] by (simp add: set_arraySort)
  then have mem: "\<forall>t\<in>set (calculateLongestSongs tracks). t \<in> set tracks \<and> validTrack t"
    by auto
  have char: "\<forall>t. validTrack t \<longleftrightarrow>
            (\<exists>n. durationSeconds t = JNum n \<and> 0 < n) \<and> truthy (songNameT t)"
    using validTrack_iff by blast
  have names: "\<forall>t s. songNameT t = JStr s \<longrightarrow> truthy (songNameT t) = (s \<noteq> [])"
    by simp
  have missing: "\<forall>t. songNameT t = JUndefined \<or> songNameT t = JNull \<longrightarrow> \<not> validTrack t"
    by (auto simp: validTrack_def)
  from perm sorted stable res len adj mem char names missing show ?thesis
    by blast
qed

theorem longest_songs_selection_witness:
  "calculateLongestSongs
     [trackRecord ''A'' 100, trackRecord [] 900, trackRecord ''B'' 300, trackRecord ''C'' (- 5),
      trackRecord ''D'' 300, (trackRecord ''E'' 1)\<lparr>durationSeconds := JStr ''9999''\<rparr>,
      trackRecord ''F'' 200, trackRecord ''G'' 250]
   = [trackRecord ''B'' 300, trackRecord ''D'' 300, trackRecord ''G'' 250]
   \<and> length (calculateLongestSongs
       [trackRecord ''A'' 100, trackRecord [] 900, trackRecord ''B'' 300, trackRecord ''C'' (- 5),
        trackRecord ''D'' 300, (trackRecord ''E'' 1)\<lparr>durationSeconds := JStr ''9999''\<rparr>,
        trackRecord ''F'' 200, trackRecord ''G'' 250]) = 3"
proof -
  let ?tracks = "[trackRecord ''A'' 100, trackRecord [] 900, trackRecord ''B'' 300, trackRecord ''C'' (- 5),
      trackRecord ''D'' 300, (trackRecord ''E'' 1)\<lparr>durationSeconds := JStr ''9999''\<rparr>,
      trackRecord ''F'' 200, trackRecord ''G'' 250]"
  have valid: "filter validTrack ?tracks
      = [trackRecord ''A'' 100, trackRecord ''B'' 300, trackRecord ''D'' 300,
         trackRecord ''F'' 200, trackRecord ''G'' 250]"
    by (simp add: validTrack_def trackRecord_def)
  have "length (calculateLongestSongs ?tracks) = min 3 (length (filter validTrack ?tracks))"
    using longest_songs_selection [of ?tracks] by blast
  then have len: "length (calculateLongestSongs ?tracks) = 3"
    by (simp only: valid) simp
  have "calculateLongestSongs ?tracks
      = [trackRecord ''B'' 300, trackRecord ''D'' 300, trackRecord ''G'' 250]"
    by (simp add: calculateLongestSongs_def validTrack_def arraySort_def byDurationDesc_def
        trackRecord_def)
  with len show ?thesis by blast
qed

text \<open>
  Claim C5. On the three reference shows (2025-06-24 at Bethel Woods Center for the Arts
  with Paul and Silas, gap 323; 2025-07-11 at Pine Knob Music Theatre with Devotion To A
  Dream, gap 322; 2025-07-18 at United Center with On Your Way Down, gap 522) the reducer
  returns, in this order, On Your Way Down (522, United Center, 2025-07-18), Paul and Silas
  (323, Bethel Woods Center for the Arts, 2025-06-24) and Devotion To A Dream (322, Pine
  Knob Music Theatre, 2025-07-11).
\<close>

theorem rarest_reference_scenario:
  "calculateTourProgressiveRarestSongs
     [showRecord ''2025-06-24'' ''Bethel Woods Center for the Arts'' [gapRecord ''Paul and Silas'' 323],
      showRecord ''2025-07-11'' ''Pine Knob Music Theatre'' [gapRecord ''Devotion To A Dream'' 322],
      showRecord ''2025-07-18'' ''United Center'' [gapRecord ''On Your Way Down'' 522]]
   = Inr
     [\<lparr> songName = JStr ''On Your Way Down'', gap = JNum 522, lastPlayed = JNull,
        tourDate = JStr ''2025-07-18'', tourVenue = JStr ''United Center'',
        timesPlayed = JNum 100, historicalVenue = JNull, historicalCity = JNull,
        historicalState = JNull, historicalLastPlayed = JUndefined \<rparr>,
      \<lparr> songName = JStr ''Paul and Silas'', gap = JNum 323, lastPlayed = JNull,
        tourDate = JStr ''2025-06-24'', tourVenue = JStr ''Bethel Woods Center for the Arts'',
        timesPlayed = JNum 100, historicalVenue = JNull, historicalCity = JNull,
        historicalState = JNull, historicalLastPlayed = JUndefined \<rparr>,
      \<lparr> songName = JStr ''Devotion To A Dream'', gap = JNum 322, lastPlayed = JNull,
        tourDate = JStr ''2025-07-11'', tourVenue = JStr ''Pine Knob Music Theatre'',
        timesPlayed = JNum 100, historicalVenue = JNull, historicalCity = JNull,
        historicalState = JNull, historicalLastPlayed = JUndefined \<rparr>]"
  by (simp add: calculateTourProgressiveRarestSongs_def visitShow_def visitGap_def invalidGap_def
      storedEntry_def mapGet_def mapValues_def arraySort_def byGapDesc_def jsOr_def
      showRecord_def gapRecord_def toLowerChar_def lowerTable_def)

theorem rarest_reference_scenario_witness:
  "map (\<lambda>e. (songName e, gap e, tourVenue e, tourDate e))
     (projr (calculateTourProgressiveRarestSongs
       [showRecord ''2025-06-24'' ''Bethel Woods Center for the Arts'' [gapRecord ''Paul and Silas'' 323],
        showRecord ''2025-07-11'' ''Pine Knob Music Theatre'' [gapRecord ''Devotion To A Dream'' 322],
        showRecord ''2025-07-18'' ''United Center'' [gapRecord ''On Your Way Down'' 522]]))
   = [(JStr ''On Your Way Down'', JNum 522, JStr ''United Center'', JStr ''2025-07-18''),
      (JStr ''Paul and Silas'', JNum 323, JStr ''Bethel Woods Center for the Arts'', JStr ''2025-06-24''),
      (JStr ''Devotion To A Dream'', JNum 322, JStr ''Pine Knob Music Theatre'', JStr ''2025-07-11'')]"
  by (simp add: rarest_reference_scenario)

text \<open>
  Claim C6, as stated, fails on an observation whose \<^verbatim>\<open>songName\<close> is truthy but not a
  string: it passes the validation, and \<^verbatim>\<open>gapInfo.songName.toLowerCase()\<close> raises.
\<close>

theorem numeric_songName_raises:
  "calculateTourProgressiveRarestSongs
     [\<lparr> showDate = JStr ''2025-07-18'', venue = JStr ''United Center'',
        songGaps = Some [(gapRecord ''On Your Way Down'' 522)\<lparr>songName := JNum 42\<rparr>] \<rparr>]
   = Inl TypeError"
  by (simp add: calculateTourProgressiveRarestSongs_def visitShow_def visitGap_def invalidGap_def
      gapRecord_def)

text \<open>
  Claim C6, amended. For every input in which the \<^verbatim>\<open>songName\<close> of each observation is a
  string or a falsy value, the reducer returns a sequence and does not raise, and the
  longest-songs selector returns a sequence of valid tracks of its input for every input.
  An empty input yields the empty sequence; an invalid observation (a missing, \<^verbatim>\<open>null\<close> or
  empty \<^verbatim>\<open>songName\<close>, a missing, non-numeric or negative \<^verbatim>\<open>gap\<close>) leaves the Map as it is;
  an observation with gap 0 is valid and, alone in a tour, is returned.
\<close>

theorem selectors_return_normally:
  assumes "\<forall>sh\<in>set shs. \<forall>gis. songGaps sh = Some gis \<longrightarrow>
             (\<forall>gi\<in>set gis. \<not> truthy (songName gi) \<or> (\<exists>s. songName gi = JStr s))"
  shows "(\<exists>out. calculateTourProgressiveRarestSongs shs = Inr out)
       \<and> calculateTourProgressiveRarestSongs [] = Inr []
       \<and> calculateLongestSongs [] = []
       \<and> set (calculateLongestSongs tracks) \<subseteq> {t \<in> set tracks. validTrack t}
       \<and> (\<forall>sh m gi. invalidGap gi \<longrightarrow> visitGap sh m gi = Inr m)
       \<and> (\<forall>gi. songName gi = JUndefined \<or> songName gi = JNull \<or> songName gi = JStr []
               \<or> gap gi = JUndefined \<or> gap gi = JNull \<or> (\<exists>s. gap gi = JStr s)
               \<or> (\<exists>b. gap gi = JBool b) \<or> (\<exists>n. gap gi = JNum n \<and> n < 0)
             \<longrightarrow> invalidGap gi)
       \<and> (\<forall>gi. truthy (songName gi) \<and> gap gi = JNum 0 \<longrightarrow> \<not> invalidGap gi)
       \<and> (\<forall>sh gi s. songName gi = JStr s \<and> s \<noteq> [] \<and> gap gi = JNum 0 \<and> songGaps sh = Some [gi]
             \<longrightarrow> calculateTourProgressiveRarestSongs [sh] = Inr [storedEntry sh gi])"
proof -
  have rarest: "\<exists>out. calculateTourProgressiveRarestSongs shs = Inr out"
    by (rule rarest_returns [OF assms])
  have empty: "calculateTourProgressiveRarestSongs [] = Inr []" "calculateLongestSongs [] = []"
    by (simp_all add: calculateTourProgressiveRarestSongs_def calculateLongestSongs_def)
  have "set (calculateLongestSongs tracks) \<subseteq> set (filter validTrack tracks)"
    unfolding longest_result
    using set_take_subset [of 3 "arraySort byDurationDesc (filter validTrack tracks)"]
    by (simp add: set_arraySort)
  then have longest: "set (calculateLongestSongs tracks) \<subseteq> {t \<in> set tracks. validTrack t}"
    by auto
  have skip: "\<forall>sh m gi. invalidGap gi \<longrightarrow> visitGap sh m gi = Inr m"
    by (simp add: visitGap_invalid)
  have zero: "\<forall>gi. truthy (songName gi) \<and> gap gi = JNum 0 \<longrightarrow> \<not> invalidGap gi"
    by (simp add: invalidGap_def)
  from rarest empty longest skip zero invalidGap_cases single_gap_zero show ?thesis
    by blast
qed

theorem selectors_return_normally_witness:
  "calculateTourProgressiveRarestSongs
     [showRecord ''d1'' ''v1''
        [gapRecord [] 5, (gapRecord ''X'' 1)\<lparr>gap := JUndefined\<rparr>,
         (gapRecord ''Y'' 1)\<lparr>gap := JStr ''7''\<rparr>, gapRecord ''Z'' (- 3),
         (gapRecord ''N'' 4)\<lparr>songName := JNull\<rparr>, gapRecord ''ok'' 0],
      \<lparr> showDate = JStr ''d2'', venue = JStr ''v2'', songGaps = None \<rparr>]
   = Inr [storedEntry (showRecord ''d1'' ''v1'' []) (gapRecord ''ok'' 0)]"
proof -
  let ?shs = "[showRecord ''d1'' ''v1''
        [gapRecord [] 5, (gapRecord ''X'' 1)\<lparr>gap := JUndefined\<rparr>,
         (gapRecord ''Y'' 1)\<lparr>gap := JStr ''7''\<rparr>, gapRecord ''Z'' (- 3),
         (gapRecord ''N'' 4)\<lparr>songName := JNull\<rparr>, gapRecord ''ok'' 0],
      \<lparr> showDate = JStr ''d2'', venue = JStr ''v2'', songGaps = None \<rparr>]"
  have typed: "\<forall>sh\<in>set ?shs. \<forall>gis. songGaps sh = Some gis \<longrightarrow>
             (\<forall>gi\<in>set gis. \<not> truthy (songName gi) \<or> (\<exists>s. songName gi = JStr s))"
    by (simp add: showRecord_def gapRecord_def)
  from selectors_return_normally [OF typed]
  obtain out where out: "calculateTourProgressiveRarestSongs ?shs = Inr out"
    by blast
  have "calculateTourProgressiveRarestSongs ?shs
      = Inr [storedEntry (showRecord ''d1'' ''v1'' []) (gapRecord ''ok'' 0)]"
    by (simp add: calculateTourProgressiveRarestSongs_def visitShow_def visitGap_def invalidGap_def
      storedEntry_def mapGet_def mapValues_def arraySort_def jsOr_def
      showRecord_def gapRecord_def toLowerChar_def lowerTable_def)
  with out show ?thesis by simp
qed






text \<open>
  Claim C9. Neither selector writes its input. After \<^verbatim>\<open>calculateLongestSongs\<close> the input
  array, like every array allocated before the call, has the contents it had, and the
  result is a new array. After \<^verbatim>\<open>calculateTourProgressiveRarestSongs\<close> the arrays of shows
  and every array of gap records allocated before the call are unchanged, so the input
  reads back as before, and the result is a new array.
\<close>

theorem selectors_leave_input_unchanged:
  assumes longest: "calculateLongestSongsIn trackDurations s = (r, s')"
    and allocated: "trackDurations < nextRef s"
    and rarest: "calculateTourProgressiveRarestSongsIn shsRef h = (res, h')"
    and gaps: "\<forall>ob\<in>set (arrays (showArrays h) shsRef).
                 \<forall>g. songGapsRef ob = Some g \<longrightarrow> g < nextRef (gapArrays h)"
  shows "arrays s' trackDurations = arrays s trackDurations
       \<and> (\<forall>p. p < nextRef s \<longrightarrow> arrays s' p = arrays s p)
       \<and> r \<noteq> trackDurations \<and> nextRef s \<le> r
       \<and> arrays s' r = calculateLongestSongs (arrays s trackDurations)
       \<and> showArrays h' = showArrays h
       \<and> (\<forall>p. p < nextRef (gapArrays h) \<longrightarrow> arrays (gapArrays h') p = arrays (gapArrays h) p)
       \<and> readShows h' shsRef = readShows h shsRef
       \<and> (\<forall>q. res = Inr q \<longrightarrow> nextRef (gapArrays h) \<le> q)"
proof -
  from longest_store [OF longest]
  have l1: "arrays s' r = calculateLongestSongs (arrays s trackDurations)"
    and l2: "nextRef s \<le> r"
    and l3: "\<forall>p. p < nextRef s \<longrightarrow> arrays s' p = arrays s p"
    by simp_all
  from l3 allocated have l4: "arrays s' trackDurations = arrays s trackDurations"
    by simp
  from l2 allocated have l5: "r \<noteq> trackDurations"
    by simp
  from rarest_store_frame [OF rarest]
  have r1: "showArrays h' = showArrays h"
    and r2: "\<forall>p. p < nextRef (gapArrays h) \<longrightarrow> arrays (gapArrays h') p = arrays (gapArrays h) p"
    and r3: "\<forall>q. res = Inr q \<longrightarrow> nextRef (gapArrays h) \<le> q"
    by simp_all
  have r4: "readShows h' shsRef = readShows h shsRef"
    by (rule readShows_frame [OF r1 r2 gaps])
  from l1 l2 l3 l4 l5 r1 r2 r3 r4 show ?thesis
    by blast
qed

theorem selectors_leave_input_unchanged_witness:
  "arrays (snd (calculateLongestSongsIn 0
      \<lparr> arrays = (\<lambda>p. [])(0 := [trackRecord ''A'' 100, trackRecord ''B'' 300]), nextRef = 1 \<rparr>)) 0
     = [trackRecord ''A'' 100, trackRecord ''B'' 300]
   \<and> arrays (snd (calculateLongestSongsIn 0
        \<lparr> arrays = (\<lambda>p. [])(0 := [trackRecord ''A'' 100, trackRecord ''B'' 300]), nextRef = 1 \<rparr>))
       (fst (calculateLongestSongsIn 0
        \<lparr> arrays = (\<lambda>p. [])(0 := [trackRecord ''A'' 100, trackRecord ''B'' 300]), nextRef = 1 \<rparr>))
     = [trackRecord ''B'' 300, trackRecord ''A'' 100]
   \<and> fst (calculateLongestSongsIn 0
        \<lparr> arrays = (\<lambda>p. [])(0 := [trackRecord ''A'' 100, trackRecord ''B'' 300]), nextRef = 1 \<rparr>) \<noteq> 0
   \<and> readShows
       (snd (calculateTourProgressiveRarestSongsIn 0
         \<lparr> showArrays = \<lparr> arrays = (\<lambda>p. [])(0 := [\<lparr> showDateOf = JStr ''d1'', venueOf = JStr ''v1'',
                                                      songGapsRef = Some 0 \<rparr>]), nextRef = 1 \<rparr>,
           gapArrays = \<lparr> arrays = (\<lambda>p. [])(0 := [gapRecord ''B'' 1, gapRecord ''A'' 2]), nextRef = 1 \<rparr> \<rparr>)) 0
     = [showRecord ''d1'' ''v1'' [gapRecord ''B'' 1, gapRecord ''A'' 2]]"
proof -
  let ?s = "\<lparr> arrays = (\<lambda>p. [])(0 := [trackRecord ''A'' 100, trackRecord ''B'' 300]), nextRef = 1 \<rparr>"
  let ?h = "\<lparr> showArrays = \<lparr> arrays = (\<lambda>p. [])(0 := [\<lparr> showDateOf = JStr ''d1'', venueOf = JStr ''v1'',
                                                      songGapsRef = Some 0 \<rparr>]), nextRef = 1 \<rparr>,
           gapArrays = \<lparr> arrays = (\<lambda>p. [])(0 := [gapRecord ''B'' 1, gapRecord ''A'' 2]), nextRef = 1 \<rparr> \<rparr>"
  have longest: "calculateLongestSongsIn 0 ?s
      = (fst (calculateLongestSongsIn 0 ?s), snd (calculateLongestSongsIn 0 ?s))"
    by simp
  have allocated: "(0::nat) < nextRef ?s" by simp
  have rarest: "calculateTourProgressiveRarestSongsIn 0 ?h
      = (fst (calculateTourProgressiveRarestSongsIn 0 ?h), snd (calculateTourProgressiveRarestSongsIn 0 ?h))"
    by simp
  have gaps: "\<forall>ob\<in>set (arrays (showArrays ?h) 0).
                 \<forall>g. songGapsRef ob = Some g \<longrightarrow> g < nextRef (gapArrays ?h)"
    by simp
  have before: "readShows ?h 0 = [showRecord ''d1'' ''v1'' [gapRecord ''B'' 1, gapRecord ''A'' 2]]"
    by (simp add: readShows_def readShow_def showRecord_def)
  have sorted: "calculateLongestSongs (arrays ?s 0) = [trackRecord ''B'' 300, trackRecord ''A'' 100]"
    by (simp add: calculateLongestSongs_def validTrack_def arraySort_def byDurationDesc_def
        trackRecord_def)
  from selectors_leave_input_unchanged [OF longest allocated rarest gaps]
  have "arrays (snd (calculateLongestSongsIn 0 ?s)) 0 = arrays ?s 0"
    and "fst (calculateLongestSongsIn 0 ?s) \<noteq> 0"
    and "arrays (snd (calculateLongestSongsIn 0 ?s)) (fst (calculateLongestSongsIn 0 ?s))
           = calculateLongestSongs (arrays ?s 0)"
    and "readShows (snd (calculateTourProgressiveRarestSongsIn 0 ?h)) 0 = readShows ?h 0"
    by blast+
  then show ?thesis
    using before sorted by simp
qed

text \<open>
  Claim C10. Every returned record is built from the winning observation of its song, and
  its \<^verbatim>\<open>timesPlayed\<close> is that of the observation when truthy and 100 otherwise: 100 when
  the property is missing, and also when it is 0.
\<close>

theorem timesPlayed_falsy_defaults_to_100:
  assumes out: "calculateTourProgressiveRarestSongs shs = Inr out" and e: "e \<in> set out"
  shows "\<exists>k sh gi. firstMaxObservation k (observations shs) = Some (sh, gi)
           \<and> e = storedEntry sh gi
           \<and> timesPlayed e = (if truthy (timesPlayed gi) then timesPlayed gi else JNum 100)
           \<and> (timesPlayed gi = JNum 0 \<longrightarrow> timesPlayed e = JNum 100)
           \<and> (timesPlayed gi = JUndefined \<longrightarrow> timesPlayed e = JNum 100)"
proof -
  from out obtain m where run: "forEachObservation [] (observations shs) = Inr m"
    and res: "out = take 3 (arraySort byGapDesc (mapValues m))"
    by (auto simp: rarest_result split: sum.splits)
  have "set out \<subseteq> set (mapValues m)"
    unfolding res using set_take_subset [of 3 "arraySort byGapDesc (mapValues m)"]
    by (simp add: set_arraySort)
  with e have "e \<in> set (mapValues m)" by blast
  from retained_value [OF run this] obtain k sh gi
    where w: "firstMaxObservation k (observations shs) = Some (sh, gi)"
      and st: "e = storedEntry sh gi"
    by blast
  have "timesPlayed e = (if truthy (timesPlayed gi) then timesPlayed gi else JNum 100)"
    by (simp add: st storedEntry_def jsOr_def)
  moreover from this have "timesPlayed gi = JNum 0 \<longrightarrow> timesPlayed e = JNum 100"
    and "timesPlayed gi = JUndefined \<longrightarrow> timesPlayed e = JNum 100"
    by simp_all
  ultimately show ?thesis
    using w st by blast
qed

theorem timesPlayed_falsy_defaults_to_100_witness:
  "calculateTourProgressiveRarestSongs
     [showRecord ''d1'' ''v1'' [(gapRecord ''A'' 7)\<lparr>timesPlayed := JNum 0\<rparr>]]
   = Inr [(gapRecord ''A'' 7)\<lparr>lastPlayed := JNull, tourDate := JStr ''d1'', tourVenue := JStr ''v1'',
             timesPlayed := JNum 100, historicalVenue := JNull, historicalCity := JNull,
             historicalState := JNull\<rparr>]
   \<and> timesPlayed ((gapRecord ''A'' 7)\<lparr>lastPlayed := JNull, tourDate := JStr ''d1'',
             tourVenue := JStr ''v1'', timesPlayed := JNum 100, historicalVenue := JNull,
             historicalCity := JNull, historicalState := JNull\<rparr>) = JNum 100"
proof -
  let ?shs = "[showRecord ''d1'' ''v1'' [(gapRecord ''A'' 7)\<lparr>timesPlayed := JNum 0\<rparr>]]"
  let ?e = "(gapRecord ''A'' 7)\<lparr>lastPlayed := JNull, tourDate := JStr ''d1'', tourVenue := JStr ''v1'',
             timesPlayed := JNum 100, historicalVenue := JNull, historicalCity := JNull,
             historicalState := JNull\<rparr>"
  have res: "calculateTourProgressiveRarestSongs ?shs = Inr [?e]"
    by (simp add: calculateTourProgressiveRarestSongs_def visitShow_def visitGap_def invalidGap_def
      storedEntry_def mapGet_def mapValues_def arraySort_def jsOr_def
      showRecord_def gapRecord_def toLowerChar_def lowerTable_def)
  have mem: "?e \<in> set [?e]" by simp
  from timesPlayed_falsy_defaults_to_100 [OF res mem] obtain k sh gi
    where w: "firstMaxObservation k (observations ?shs) = Some (sh, gi)"
      and zero: "timesPlayed gi = JNum 0 \<longrightarrow> timesPlayed ?e = JNum 100"
    by blast
  have "(sh, gi) \<in> set (observations ?shs)"
    using firstMaxObservation_Some [OF w] by simp
  then have "timesPlayed gi = JNum 0"
    by (simp add: observations_def showRecord_def)
  with zero res show ?thesis by blast
qed

end
